theory Spec2Isabelle
  imports Complex_Main "HOL-Library.Word" "HOL-Library.Log_Nat"
begin

section \<open>The playback controller of SpeechifyApp.tsx\<close>

text \<open>
  The component \<open>SpeechifyApp\<close> keeps its state in React state hooks and refs, calls the
  browser's \<open>speechSynthesis\<close> object and a toast function, and registers four callbacks
  on every utterance it creates. The embedding makes each handler and each callback a
  function from state to state. The state record holds the hooks and refs of the component
  and two logs: the commands sent to \<open>speechSynthesis\<close> and the toasts shown.

  Each handler runs to completion on the values of the render it belongs to, and no handler
  reads a state variable after it has set it, so a handler is one atomic update.
\<close>

subsection \<open>Strings\<close>

text \<open>
  A JavaScript string is a sequence of UTF-16 code units, and \<open>length\<close> counts them.
  \<open>str\<close> embeds an ASCII literal.
\<close>

type_synonym jsstring = "16 word list"

definition str :: "string \<Rightarrow> jsstring" where
  "str cs = map (\<lambda>c. of_char c) cs"

text \<open>
  The code units that \<open>\s\<close> matches and that \<open>trim\<close> strips: the white space and line
  terminator code points of ECMAScript (tab, line feed, vertical tab, form feed, carriage
  return, space, no-break space, U+1680, U+2000 to U+200A, U+2028, U+2029, U+202F, U+205F,
  U+3000 and U+FEFF).
\<close>

definition is_space :: "16 word \<Rightarrow> bool" where
  "is_space c \<longleftrightarrow>
     c = 0x9 \<or> c = 0xA \<or> c = 0xB \<or> c = 0xC \<or> c = 0xD \<or> c = 0x20 \<or> c = 0xA0 \<or>
     c = 0x1680 \<or> (0x2000 \<le> c \<and> c \<le> 0x200A) \<or> c = 0x2028 \<or> c = 0x2029 \<or>
     c = 0x202F \<or> c = 0x205F \<or> c = 0x3000 \<or> c = 0xFEFF"

text \<open>\<open>s.startsWith(p)\<close>: the first code units of \<open>s\<close> are those of \<open>p\<close>.\<close>

definition startsWith :: "jsstring \<Rightarrow> jsstring \<Rightarrow> bool" where
  "startsWith s p \<longleftrightarrow> take (length p) s = p"

text \<open>\<open>String.prototype.trim\<close>: white space removed from both ends.\<close>

definition trim :: "jsstring \<Rightarrow> jsstring" where
  "trim s = rev (dropWhile is_space (rev (dropWhile is_space s)))"

text \<open>
  \<open>text.split(/\s+/)\<close>: the string is cut at every maximal run of white space. A run at
  the very start or the very end leaves an empty token there, and a string without white
  space (the empty string too) is its own single token.
\<close>

function split_whitespace :: "jsstring \<Rightarrow> jsstring list" where
  "split_whitespace s =
     (let token = takeWhile (\<lambda>c. \<not> is_space c) s;
          rest = dropWhile (\<lambda>c. \<not> is_space c) s
      in if rest = [] then [token]
         else token # split_whitespace (dropWhile is_space rest))"
  by pat_completeness auto

termination
proof (relation "measure length")
  show "wf (measure (length :: jsstring \<Rightarrow> nat))"
    by simp
next
  fix s token rest :: jsstring
  assume r: "rest = dropWhile (\<lambda>c. \<not> is_space c) s" and ne: "rest \<noteq> []"
  from ne obtain c cs where rest: "rest = c # cs"
    by (cases rest) simp_all
  have "dropWhile (\<lambda>c. \<not> is_space c) s = c # cs"
    using r rest by simp
  then have "is_space c"
    using hd_dropWhile [of "\<lambda>c. \<not> is_space c" s] by simp
  then have "length (dropWhile is_space rest) \<le> length cs"
    using rest length_dropWhile_le [of is_space cs] by simp
  moreover have "length rest \<le> length s"
    using r length_dropWhile_le [of "\<lambda>c. \<not> is_space c" s] by simp
  ultimately show "(dropWhile is_space rest, s) \<in> measure length"
    using rest by simp
qed

subsection \<open>Numbers\<close>

text \<open>
  A JavaScript number is a double: 53 significant bits, and every arithmetic operation
  returns the double nearest to the exact result, the one with the even significand when
  two are equally near. The numbers of the component are the text length, the token count,
  a character index and what is computed from them, all of them non-negative; so a value is
  a non-negative rational (a double, as long as it comes out of the operations below),
  \<open>Infinity\<close> or \<open>NaN\<close>, and the negative values and the negative zero do not arise.

  \<open>ilog2 x\<close> is the exponent of the binade of a positive \<open>x\<close>:
  \<open>2 powi ilog2 x \<le> x < 2 powi (ilog2 x + 1)\<close>. \<open>to_double\<close> rounds a non-negative
  rational to 53 significant bits, ties to even. The exponent range of a double is not
  modelled: the quotients and products of integers below \<open>2 ^ 53\<close> that the component
  computes neither overflow nor reach the subnormal range.
\<close>

definition ilog2 :: "rat \<Rightarrow> int" where
  "ilog2 x =
     (case quotient_of x of
        (p, q) \<Rightarrow> let d = bitlen p - bitlen q in if 2 powi d \<le> x then d else d - 1)"

definition round_half_even :: "rat \<Rightarrow> int" where
  "round_half_even y =
     (let f = \<lfloor>y\<rfloor>; d = y - of_int f
      in if d < 1 / 2 then f else if 1 / 2 < d then f + 1 else if even f then f else f + 1)"

definition to_double :: "rat \<Rightarrow> rat" where
  "to_double x =
     (if x = 0 then 0
      else let ulp = 2 powi (ilog2 x - 52) in of_int (round_half_even (x / ulp)) * ulp)"

datatype jsnumber = Num rat | Infinity | NaN

text \<open>The operators \<open>/\<close> and \<open>*\<close> and \<open>Math.floor\<close> of ECMAScript on these values.\<close>

fun js_div :: "jsnumber \<Rightarrow> jsnumber \<Rightarrow> jsnumber" where
  "js_div (Num a) (Num b) =
     (if b = 0 then (if a = 0 then NaN else Infinity) else Num (to_double (a / b)))"
| "js_div (Num a) Infinity = Num 0"
| "js_div Infinity (Num b) = Infinity"
| "js_div Infinity Infinity = NaN"
| "js_div NaN y = NaN"
| "js_div x NaN = NaN"

fun js_mul :: "jsnumber \<Rightarrow> jsnumber \<Rightarrow> jsnumber" where
  "js_mul (Num a) (Num b) = Num (to_double (a * b))"
| "js_mul (Num a) Infinity = (if a = 0 then NaN else Infinity)"
| "js_mul Infinity (Num b) = (if b = 0 then NaN else Infinity)"
| "js_mul Infinity Infinity = Infinity"
| "js_mul NaN y = NaN"
| "js_mul x NaN = NaN"

fun js_floor :: "jsnumber \<Rightarrow> jsnumber" where
  "js_floor (Num a) = Num (of_int \<lfloor>a\<rfloor>)"
| "js_floor Infinity = Infinity"
| "js_floor NaN = NaN"

text \<open>
  A length or an index as a number. A string of JavaScript has fewer than \<open>2 ^ 53\<close> code
  units, so its length, the number of its tokens and an index into it are doubles as they
  are.
\<close>

definition num_of_nat :: "nat \<Rightarrow> jsnumber" where
  "num_of_nat n = Num (of_nat n)"

text \<open>The comparison \<open>x <= y\<close> of JavaScript on these values; it is false when \<open>NaN\<close> is involved.\<close>

fun js_le :: "jsnumber \<Rightarrow> jsnumber \<Rightarrow> bool" where
  "js_le (Num a) (Num b) \<longleftrightarrow> a \<le> b"
| "js_le (Num a) Infinity \<longleftrightarrow> True"
| "js_le Infinity (Num b) \<longleftrightarrow> False"
| "js_le Infinity Infinity \<longleftrightarrow> True"
| "js_le NaN y \<longleftrightarrow> False"
| "js_le x NaN \<longleftrightarrow> False"

subsection \<open>Voices, utterances, toasts\<close>

text \<open>
  \<open>Voice\<close> is the interface of the component; a voice of the engine
  (\<open>SpeechSynthesisVoice\<close>) has the same three fields and the flag \<open>localService\<close>.
\<close>

record Voice =
  name :: jsstring
  lang :: jsstring
  voiceURI :: jsstring

record SpeechSynthesisVoice = Voice +
  localService :: bool

text \<open>
  An utterance as \<open>handlePlay\<close> configures it. \<open>utext\<close> is the text it was constructed
  with, which is also the \<open>text\<close> its callbacks close over. \<open>rate\<close> holds the string
  that the source passes to \<open>parseFloat\<close>; the model does not parse it.
\<close>

record SpeechSynthesisUtterance =
  utext :: jsstring
  rate :: jsstring
  volume :: nat
  pitch :: nat
  voice :: "SpeechSynthesisVoice option"

record SpeechSynthesisEvent =
  ename :: jsstring
  charIndex :: nat

record toast_props =
  title :: jsstring
  description :: jsstring
  variant :: "jsstring option"

text \<open>The commands the component sends to \<open>speechSynthesis\<close>.\<close>

datatype engine_call =
    Cancel
  | Speak SpeechSynthesisUtterance
  | PauseCall
  | Resume

subsection \<open>The state of the component\<close>

record state =
  text' :: jsstring
  isPlaying :: bool
  isPaused :: bool
  speed :: jsstring
  selectedVoice :: jsstring
  voices :: "Voice list"
  progress :: jsnumber
  currentPosition :: nat
  synthRef :: "SpeechSynthesisUtterance option"
  wordsRef :: "jsstring list"
  engineCalls :: "engine_call list"
  toasts :: "toast_props list"

definition initial :: state where
  "initial =
     \<lparr>text' = [], isPlaying = False, isPaused = False, speed = str ''1'',
      selectedVoice = [], voices = [], progress = Num 0, currentPosition = 0,
      synthRef = None, wordsRef = [], engineCalls = [], toasts = []\<rparr>"

text \<open>
  The three playback states of the specification, read off the two flags. The play button
  is disabled by \<open>isPlaying\<close> and labelled by \<open>isPaused\<close>, so \<open>isPlaying\<close> is read first.
\<close>

datatype PlaybackState = Idle | Playing | Paused

definition playbackState :: "state \<Rightarrow> PlaybackState" where
  "playbackState s = (if isPlaying s then Playing else if isPaused s then Paused else Idle)"

definition toast :: "toast_props \<Rightarrow> state \<Rightarrow> state" where
  "toast t s = s\<lparr>toasts := toasts s @ [t]\<rparr>"

definition engine :: "engine_call \<Rightarrow> state \<Rightarrow> state" where
  "engine c s = s\<lparr>engineCalls := engineCalls s @ [c]\<rparr>"

subsection \<open>Loading the voices\<close>

text \<open>
  \<open>loadVoices\<close> runs when the component mounts, when the engine signals
  \<open>voiceschanged\<close>, and when the effect is set up again after \<open>selectedVoice\<close> has
  changed, so it always sees the current \<open>selectedVoice\<close>. Its argument is what
  \<open>speechSynthesis.getVoices()\<close> returns at that moment. A string is truthy when it is
  not empty.
\<close>

definition loadVoices :: "SpeechSynthesisVoice list \<Rightarrow> state \<Rightarrow> state" where
  "loadVoices availableVoices s =
     (let voiceList =
            map (\<lambda>v. \<lparr>name = name v, lang = lang v, voiceURI = voiceURI v\<rparr>) availableVoices;
          s1 = s\<lparr>voices := voiceList\<rparr>;
          defaultVoice =
            find (\<lambda>v. startsWith (lang v) (str ''en'') \<and> localService v) availableVoices
      in case defaultVoice of
           None \<Rightarrow> s1
         | Some v \<Rightarrow> if selectedVoice s = [] then s1\<lparr>selectedVoice := voiceURI v\<rparr> else s1)"

subsection \<open>The callbacks of an utterance\<close>

definition onstart :: "state \<Rightarrow> state" where
  "onstart s = s\<lparr>isPlaying := True, currentPosition := 0\<rparr>"

text \<open>
  \<open>text\<close> is the text the callback closes over, \<open>wordsRef\<close> is read when the event
  arrives.
\<close>

definition onboundary :: "jsstring \<Rightarrow> SpeechSynthesisEvent \<Rightarrow> state \<Rightarrow> state" where
  "onboundary text ev s =
     (if ename ev = str ''word'' then
        let words = wordsRef s;
            wordIndex =
              js_floor (js_div (num_of_nat (charIndex ev))
                               (js_div (num_of_nat (length text)) (num_of_nat (length words))));
            progressPercent = js_mul (js_div wordIndex (num_of_nat (length words))) (Num 100)
        in s\<lparr>progress := progressPercent, currentPosition := charIndex ev\<rparr>
      else s)"

definition onend :: "state \<Rightarrow> state" where
  "onend s =
     toast \<lparr>title = str ''Playback completed'',
            description = str ''Finished reading the text.'',
            variant = None\<rparr>
       (s\<lparr>isPlaying := False, isPaused := False, progress := Num 100\<rparr>)"

definition onerror :: "state \<Rightarrow> state" where
  "onerror s =
     toast \<lparr>title = str ''Playback error'',
            description = str ''An error occurred during playback.'',
            variant = Some (str ''destructive'')\<rparr>
       (s\<lparr>isPlaying := False, isPaused := False\<rparr>)"

subsection \<open>The handlers\<close>

text \<open>
  \<open>engineVoices\<close> is what \<open>speechSynthesis.getVoices()\<close> returns when \<open>handlePlay\<close>
  looks the selected voice up.
\<close>

definition handlePlay :: "SpeechSynthesisVoice list \<Rightarrow> state \<Rightarrow> state" where
  "handlePlay engineVoices s =
     (if trim (text' s) = [] then
        toast \<lparr>title = str ''No text to read'',
               description = str ''Please enter some text first.'',
               variant = Some (str ''destructive'')\<rparr> s
      else if isPaused s then
        (engine Resume s)\<lparr>isPaused := False, isPlaying := True\<rparr>
      else
        let s1 = engine Cancel s;
            s2 = s1\<lparr>wordsRef := split_whitespace (text' s)\<rparr>;
            utterance =
              \<lparr>utext = text' s, rate = speed s, volume = 1, pitch = 1,
               voice =
                 (if selectedVoice s \<noteq> [] then
                    (case find (\<lambda>v. voiceURI v = selectedVoice s) (voices s) of
                       None \<Rightarrow> None
                     | Some v \<Rightarrow> find (\<lambda>w. voiceURI w = voiceURI v) engineVoices)
                  else None)\<rparr>
        in engine (Speak utterance) (s2\<lparr>synthRef := Some utterance\<rparr>))"

definition handlePause :: "state \<Rightarrow> state" where
  "handlePause s =
     (if isPlaying s then (engine PauseCall s)\<lparr>isPlaying := False, isPaused := True\<rparr>
      else s)"

definition handleStop :: "state \<Rightarrow> state" where
  "handleStop s =
     (engine Cancel s)\<lparr>isPlaying := False, isPaused := False,
                       progress := Num 0, currentPosition := 0\<rparr>"

subsection \<open>Events\<close>

text \<open>
  What can happen to the component: the user edits a field or presses a button, the voices
  are loaded, or the engine calls a callback of the utterance it was last given (the one in
  \<open>synthRef\<close>, whose text the callbacks close over). Before the first utterance there is
  no callback to call. Every run of \<open>loadVoices\<close> is an event \<open>LoadVoices\<close>, also the
  run that follows a change of \<open>selectedVoice\<close>.
\<close>

datatype event =
    SetText jsstring
  | SetSpeed jsstring
  | SetSelectedVoice jsstring
  | LoadVoices "SpeechSynthesisVoice list"
  | Play "SpeechSynthesisVoice list"
  | Pause
  | Stop
  | EngineStart
  | EngineBoundary SpeechSynthesisEvent
  | EngineEnd
  | EngineError

fun step :: "event \<Rightarrow> state \<Rightarrow> state" where
  "step (SetText t) s = s\<lparr>text' := t\<rparr>"
| "step (SetSpeed v) s = s\<lparr>speed := v\<rparr>"
| "step (SetSelectedVoice v) s = s\<lparr>selectedVoice := v\<rparr>"
| "step (LoadVoices vs) s = loadVoices vs s"
| "step (Play vs) s = handlePlay vs s"
| "step Pause s = handlePause s"
| "step Stop s = handleStop s"
| "step EngineStart s = (case synthRef s of None \<Rightarrow> s | Some u \<Rightarrow> onstart s)"
| "step (EngineBoundary ev) s =
     (case synthRef s of None \<Rightarrow> s | Some u \<Rightarrow> onboundary (utext u) ev s)"
| "step EngineEnd s = (case synthRef s of None \<Rightarrow> s | Some u \<Rightarrow> onend s)"
| "step EngineError s = (case synthRef s of None \<Rightarrow> s | Some u \<Rightarrow> onerror s)"

fun run :: "event list \<Rightarrow> state \<Rightarrow> state" where
  "run [] s = s"
| "run (e # es) s = run es (step e s)"

text \<open>The value of a field after each event of a sequence, in order.\<close>

fun observe :: "(state \<Rightarrow> 'a) \<Rightarrow> event list \<Rightarrow> state \<Rightarrow> 'a list" where
  "observe f [] s = []"
| "observe f (e # es) s = f (step e s) # observe f es (step e s)"

text \<open>The word-boundary event of the engine at character index \<open>i\<close>.\<close>

definition word_at :: "nat \<Rightarrow> event" where
  "word_at i = EngineBoundary \<lparr>ename = str ''word'', charIndex = i\<rparr>"

subsection \<open>The progress estimate in the words of the specification\<close>

text \<open>
  The specification gives the estimate as a formula: the word index is
  \<open>floor(charIndex / (totalTextLength / tokenCount))\<close> and the progress is
  \<open>100 * wordIndex / tokenCount\<close>. These two definitions are that formula, with the
  operators of JavaScript numbers and the percentage read as \<open>100 * (wordIndex / tokenCount)\<close>,
  to be compared with what \<open>onboundary\<close> computes.
\<close>

definition spec_wordIndex :: "nat \<Rightarrow> nat \<Rightarrow> nat \<Rightarrow> jsnumber" where
  "spec_wordIndex charIdx totalTextLength tokenCount =
     js_floor (js_div (num_of_nat charIdx)
                      (js_div (num_of_nat totalTextLength) (num_of_nat tokenCount)))"

definition spec_progressPercent :: "jsnumber \<Rightarrow> nat \<Rightarrow> jsnumber" where
  "spec_progressPercent wordIndex tokenCount =
     js_mul (Num 100) (js_div wordIndex (num_of_nat tokenCount))"

text \<open>
  The same value as a rational number, for a text and a token list that are not empty,
  where no division by zero occurs.
\<close>

definition progress_value :: "nat \<Rightarrow> nat \<Rightarrow> nat \<Rightarrow> rat" where
  "progress_value charIdx totalTextLength tokenCount =
     to_double
       (to_double
          (of_int \<lfloor>to_double (of_nat charIdx /
                                 to_double (of_nat totalTextLength / of_nat tokenCount))\<rfloor>
           / of_nat tokenCount)
        * 100)"

section \<open>Properties\<close>

subsection \<open>Strings and the progress formula\<close>

declare split_whitespace.simps [simp del]

lemma split_whitespace_not_Nil: "split_whitespace s \<noteq> []"
  by (subst split_whitespace.simps) (simp add: Let_def)

lemma length_split_whitespace_pos: "0 < length (split_whitespace s)"
  using split_whitespace_not_Nil [of s] by simp

lemma trim_not_Nil_length: "trim s \<noteq> [] \<Longrightarrow> 0 < length s"
  by (cases s) (simp_all add: trim_def)

lemma length_split_whitespace_le: "length (split_whitespace s) \<le> length s + 1"
proof (induction s rule: split_whitespace.induct)
  case (1 s)
  define rest where "rest = dropWhile (\<lambda>c. \<not> is_space c) s"
  show ?case
  proof (cases "rest = []")
    case True
    then show ?thesis
      using split_whitespace.simps [of s] by (simp add: rest_def Let_def)
  next
    case False
    then obtain c cs where r: "rest = c # cs"
      by (cases rest) simp_all
    have "dropWhile (\<lambda>c. \<not> is_space c) s = c # cs"
      using r by (simp add: rest_def)
    then have "is_space c"
      using hd_dropWhile [of "\<lambda>c. \<not> is_space c" s] by simp
    then have "length (dropWhile is_space rest) \<le> length cs"
      using r length_dropWhile_le [of is_space cs] by simp
    moreover have "length rest \<le> length s"
      unfolding rest_def by (rule length_dropWhile_le)
    moreover have "length (split_whitespace (dropWhile is_space rest))
        \<le> length (dropWhile is_space rest) + 1"
      using "1.IH" [OF refl refl] False by (simp add: rest_def)
    moreover have "split_whitespace s =
        takeWhile (\<lambda>c. \<not> is_space c) s # split_whitespace (dropWhile is_space rest)"
      using False split_whitespace.simps [of s] by (auto simp: rest_def Let_def)
    ultimately show ?thesis
      using r by simp
  qed
qed

subsection \<open>Rounding to a double\<close>

lemma bitlen_powi_bounds:
  assumes "0 < p"
  shows "(2 :: rat) powi (bitlen p - 1) \<le> of_int p" and "(of_int p :: rat) < 2 powi bitlen p"
proof -
  from assms have b: "1 \<le> bitlen p"
    using bitlen_eq_zero_iff [of p] bitlen_nonneg [of p] by linarith
  from bitlen_bounds [OF assms]
  have lo: "2 ^ nat (bitlen p - 1) \<le> p" and hi: "p < 2 ^ nat (bitlen p)"
    by simp_all
  have "(2 :: rat) powi (bitlen p - 1) = of_int (2 ^ nat (bitlen p - 1))"
    using b by (simp add: power_int_nonneg_exp)
  also have "\<dots> \<le> of_int p"
    using lo by (simp only: of_int_le_iff)
  finally show "(2 :: rat) powi (bitlen p - 1) \<le> of_int p" .
  have "(of_int p :: rat) < of_int (2 ^ nat (bitlen p))"
    using hi by (simp only: of_int_less_iff)
  also have "\<dots> = 2 powi bitlen p"
    using b by (simp add: power_int_nonneg_exp)
  finally show "(of_int p :: rat) < 2 powi bitlen p" .
qed

lemma ilog2_bounds:
  assumes "0 < x"
  shows "2 powi ilog2 x \<le> x" and "x < 2 powi (ilog2 x + 1)"
proof -
  obtain p q where pq: "quotient_of x = (p, q)"
    by (cases "quotient_of x")
  then have q: "0 < q" and x: "x = of_int p / of_int q"
    by (simp_all add: quotient_of_denom_pos quotient_of_div)
  from assms x q have p: "0 < p"
    by (simp add: zero_less_divide_iff)
  define d where "d = bitlen p - bitlen q"
  have i: "ilog2 x = (if 2 powi d \<le> x then d else d - 1)"
    by (simp add: ilog2_def pq d_def Let_def)
  have qr: "0 < (of_int q :: rat)"
    using q by simp
  have "(2 :: rat) powi (d - 1) * of_int q < 2 powi (d - 1) * 2 powi bitlen q"
    using bitlen_powi_bounds(2) [OF q] by simp
  also have "\<dots> = 2 powi (bitlen p - 1)"
    by (simp add: d_def power_int_add [symmetric])
  also have "\<dots> \<le> of_int p"
    by (rule bitlen_powi_bounds(1) [OF p])
  finally have lo: "(2 :: rat) powi (d - 1) < x"
    unfolding x using qr by (simp add: pos_less_divide_eq)
  have "(of_int p :: rat) < 2 powi bitlen p"
    by (rule bitlen_powi_bounds(2) [OF p])
  also have "\<dots> = 2 powi (d + 1) * 2 powi (bitlen q - 1)"
    by (simp add: d_def power_int_add [symmetric])
  also have "\<dots> \<le> 2 powi (d + 1) * of_int q"
    using bitlen_powi_bounds(1) [OF q] by simp
  finally have hi: "x < (2 :: rat) powi (d + 1)"
    unfolding x using qr by (simp add: pos_divide_less_eq)
  show "2 powi ilog2 x \<le> x"
    using lo by (simp add: i)
  show "x < 2 powi (ilog2 x + 1)"
    using hi by (auto simp: i not_le)
qed

lemma round_half_even_of_int [simp]: "round_half_even (of_int k) = k"
  by (simp add: round_half_even_def)

lemma round_half_even_cases:
  "round_half_even y = \<lfloor>y\<rfloor> \<or> round_half_even y = \<lfloor>y\<rfloor> + 1"
  by (simp add: round_half_even_def Let_def)

lemma round_half_even_error:
  "y - 1 / 2 \<le> of_int (round_half_even y)" and "of_int (round_half_even y) \<le> y + 1 / 2"
proof -
  define f where "f = \<lfloor>y\<rfloor>"
  have b: "of_int f \<le> y" "y < of_int f + 1"
    unfolding f_def by linarith+
  have r: "round_half_even y =
      (if y - of_int f < 1 / 2 then f
       else if 1 / 2 < y - of_int f then f + 1 else if even f then f else f + 1)"
    by (simp add: round_half_even_def Let_def f_def)
  show "y - 1 / 2 \<le> of_int (round_half_even y)"
    using b unfolding r by (auto split: if_splits)
  show "of_int (round_half_even y) \<le> y + 1 / 2"
    using b unfolding r by (auto split: if_splits)
qed

lemma round_half_even_mono:
  assumes "y \<le> z"
  shows "round_half_even y \<le> round_half_even z"
proof (cases "\<lfloor>y\<rfloor> = \<lfloor>z\<rfloor>")
  case True
  with assms show ?thesis
    by (auto simp: round_half_even_def Let_def)
next
  case False
  with assms have "\<lfloor>y\<rfloor> + 1 \<le> \<lfloor>z\<rfloor>"
    using floor_mono [OF assms] by linarith
  moreover have "round_half_even y \<le> \<lfloor>y\<rfloor> + 1" "\<lfloor>z\<rfloor> \<le> round_half_even z"
    using round_half_even_cases [of y] round_half_even_cases [of z] by auto
  ultimately show ?thesis
    by linarith
qed


lemma ilog2_mono:
  assumes "0 < x" and "x \<le> y"
  shows "ilog2 x \<le> ilog2 y"
proof (rule ccontr)
  assume "\<not> ilog2 x \<le> ilog2 y"
  then have "ilog2 y + 1 \<le> ilog2 x"
    by simp
  then have "(2 :: rat) powi (ilog2 y + 1) \<le> 2 powi ilog2 x"
    by (rule power_int_increasing) simp
  also have "\<dots> \<le> x"
    using assms(1) by (rule ilog2_bounds)
  also have "\<dots> \<le> y"
    by (rule assms(2))
  also have "\<dots> < 2 powi (ilog2 y + 1)"
    using assms by (intro ilog2_bounds) simp
  finally show False
    by simp
qed

lemma pow_powi: "(2 :: rat) ^ n * 2 powi (e - int n) = 2 powi e"
proof -
  have "(2 :: rat) powi int n * 2 powi (e - int n) = 2 powi (int n + (e - int n))"
    by (rule power_int_add [symmetric]) simp
  then show ?thesis
    by simp
qed

lemma ulp_times:
  "(2 :: rat) ^ 52 * 2 powi (e - 52) = 2 powi e"
  "(2 :: rat) ^ 53 * 2 powi (e - 52) = 2 powi (e + 1)"
  using pow_powi [of 52 e] pow_powi [of 53 "e + 1"] by simp_all

lemma scaled_bounds:
  assumes "0 < x"
  shows "2 ^ 52 \<le> x / 2 powi (ilog2 x - 52)" and "x / 2 powi (ilog2 x - 52) < 2 ^ 53"
proof -
  have u: "0 < (2 :: rat) powi (ilog2 x - 52)"
    by simp
  have "(2 :: rat) ^ 52 * 2 powi (ilog2 x - 52) \<le> x"
    unfolding ulp_times using assms by (rule ilog2_bounds)
  then show "2 ^ 52 \<le> x / 2 powi (ilog2 x - 52)"
    using u by (simp only: pos_le_divide_eq)
  have "x < 2 ^ 53 * 2 powi (ilog2 x - 52)"
    unfolding ulp_times using assms by (rule ilog2_bounds)
  then show "x / 2 powi (ilog2 x - 52) < 2 ^ 53"
    using u by (simp only: pos_divide_less_eq)
qed

lemma to_double_range:
  assumes "0 < x"
  shows "2 powi ilog2 x \<le> to_double x" and "to_double x \<le> 2 powi (ilog2 x + 1)"
proof -
  let ?u = "(2 :: rat) powi (ilog2 x - 52)"
  have x: "x \<noteq> 0" and u: "0 < ?u"
    using assms by simp_all
  have t: "to_double x = of_int (round_half_even (x / ?u)) * ?u"
    using x by (simp add: to_double_def Let_def)
  have "round_half_even (of_int (2 ^ 52)) \<le> round_half_even (x / ?u)"
    using scaled_bounds(1) [OF assms] by (intro round_half_even_mono) simp
  then have "(2 :: rat) ^ 52 \<le> of_int (round_half_even (x / ?u))"
    unfolding round_half_even_of_int by (metis of_int_le_iff of_int_numeral of_int_power)
  then have "2 ^ 52 * ?u \<le> to_double x"
    unfolding t using u by (intro mult_right_mono) simp_all
  then show "2 powi ilog2 x \<le> to_double x"
    unfolding ulp_times .
  have "round_half_even (x / ?u) \<le> round_half_even (of_int (2 ^ 53))"
    using scaled_bounds(2) [OF assms] by (intro round_half_even_mono) simp
  then have "of_int (round_half_even (x / ?u)) \<le> (2 :: rat) ^ 53"
    unfolding round_half_even_of_int by (metis of_int_le_iff of_int_numeral of_int_power)
  then have "to_double x \<le> 2 ^ 53 * ?u"
    unfolding t using u by (intro mult_right_mono) simp_all
  then show "to_double x \<le> 2 powi (ilog2 x + 1)"
    unfolding ulp_times .
qed

lemma to_double_pos: "0 < x \<Longrightarrow> 0 < to_double x"
  using to_double_range(1) [of x] zero_less_power_int [of "2 :: rat" "ilog2 x"]
  by linarith

lemma to_double_mono:
  assumes "0 \<le> x" and "x \<le> y"
  shows "to_double x \<le> to_double y"
proof (cases "x = 0")
  case True
  then show ?thesis
    using assms to_double_pos [of y] by (cases "y = 0") (simp_all add: to_double_def less_imp_le)
next
  case False
  with assms have x: "0 < x" and y: "0 < y"
    by simp_all
  have e: "ilog2 x \<le> ilog2 y"
    using x assms(2) by (rule ilog2_mono)
  show ?thesis
  proof (cases "ilog2 x = ilog2 y")
    case True
    let ?u = "(2 :: rat) powi (ilog2 y - 52)"
    have u: "0 < ?u"
      by simp
    have "x / ?u \<le> y / ?u"
      using assms(2) u by (intro divide_right_mono) simp_all
    then have "round_half_even (x / ?u) \<le> round_half_even (y / ?u)"
      by (rule round_half_even_mono)
    then have "(of_int (round_half_even (x / ?u)) :: rat) * ?u \<le> of_int (round_half_even (y / ?u)) * ?u"
      using u by (intro mult_right_mono) simp_all
    then show ?thesis
      using x y True by (simp add: to_double_def Let_def)
  next
    case False
    with e have "ilog2 x + 1 \<le> ilog2 y"
      by simp
    then have "(2 :: rat) powi (ilog2 x + 1) \<le> 2 powi ilog2 y"
      by (rule power_int_increasing) simp
    with to_double_range(2) [OF x] to_double_range(1) [OF y] show ?thesis
      by linarith
  qed
qed

lemma to_double_of_nat:
  assumes "k \<le> 2 ^ 53"
  shows "to_double (of_nat k) = of_nat k"
proof (cases "k = 0")
  case True
  then show ?thesis
    by (simp add: to_double_def)
next
  case False
  let ?x = "of_nat k :: rat"
  let ?e = "ilog2 ?x"
  from False have x: "0 < ?x"
    by simp
  have "(2 :: rat) powi ?e \<le> ?x"
    using x by (rule ilog2_bounds)
  also have "?x \<le> of_nat (2 ^ 53)"
    using assms by (simp only: of_nat_le_iff)
  also have "\<dots> = 2 powi 53"
    by simp
  finally have "?e \<le> 53"
    using power_int_strict_increasing [of 53 ?e "2 :: rat"] by (cases "?e \<le> 53") auto
  show ?thesis
  proof (cases "?e = 53")
    case True
    have "?x < 2 powi (?e + 1)"
      using x by (rule ilog2_bounds)
    have "(2 :: rat) powi 53 \<le> ?x"
      using ilog2_bounds(1) [OF x] True by simp
    then have "(of_nat (2 ^ 53) :: rat) \<le> of_nat k"
      by simp
    then have "2 ^ 53 \<le> k"
      by (simp only: of_nat_le_iff)
    with assms have k: "k = 2 ^ 53"
      by simp
    have "to_double ?x = of_int (round_half_even (of_int (2 ^ 52))) * 2"
      using True x unfolding k by (simp add: to_double_def Let_def)
    then show ?thesis
      unfolding round_half_even_of_int k by simp
  next
    case False
    with \<open>?e \<le> 53\<close> have le: "?e \<le> 52"
      by simp
    define m where "m = nat (52 - ?e)"
    have u: "(2 :: rat) powi (?e - 52) = 1 / 2 ^ m"
    proof -
      have "?e - 52 = - int m"
        using le by (simp add: m_def)
      then show ?thesis
        by (simp add: power_int_minus_divide)
    qed
    have "?x / 2 powi (?e - 52) = of_int (int k * 2 ^ m)"
      by (simp add: u)
    then have "round_half_even (?x / 2 powi (?e - 52)) = int k * 2 ^ m"
      by (simp only: round_half_even_of_int)
    then show ?thesis
      using x by (simp add: to_double_def Let_def u)
  qed
qed

lemma to_double_lower:
  assumes "0 < x"
  shows "x * (1 - 1 / 2 ^ 53) \<le> to_double x"
proof -
  let ?u = "(2 :: rat) powi (ilog2 x - 52)"
  have u: "0 < ?u"
    by simp
  have t: "to_double x = of_int (round_half_even (x / ?u)) * ?u"
    using assms by (simp add: to_double_def Let_def)
  have "(x / ?u - 1 / 2) * ?u \<le> to_double x"
    unfolding t using u round_half_even_error(1) [of "x / ?u"]
    by (intro mult_right_mono) simp_all
  moreover have "(x / ?u - 1 / 2) * ?u = x - ?u / 2"
    using u by (simp add: field_simps)
  moreover have "2 ^ 52 * ?u \<le> x"
    unfolding ulp_times using assms by (rule ilog2_bounds)
  then have "?u / 2 \<le> x / 2 ^ 53"
    by simp
  moreover have "x * (1 - 1 / 2 ^ 53) = x - x / 2 ^ 53"
    by (simp add: algebra_simps)
  ultimately show ?thesis
    by linarith
qed

lemma to_double_nonneg: "0 \<le> x \<Longrightarrow> 0 \<le> to_double x"
  using to_double_mono [of 0 x] by (simp add: to_double_def)

text \<open>
  The model against the numbers JavaScript prints: \<open>1 / 3\<close> is \<open>0.3333333333333333\<close>,
  \<open>7 / 25 * 100\<close> is \<open>28.000000000000004\<close> and \<open>33 / 1.1\<close> is
  \<open>29.999999999999996\<close>. Rounding can take a quotient just below an integer, and the
  word index with it: for an 88 character text of 40 tokens the index at character 66 is
  29, although \<open>66 * 40 / 88 = 30\<close>.
\<close>

lemma to_double_examples:
  "to_double (1 / 3) = 6004799503160661 / 2 ^ 54"
  "js_mul (js_div (Num 7) (Num 25)) (Num 100) = Num (28 + 1 / 2 ^ 48)"
  "js_div (Num 33) (js_div (Num 11) (Num 10)) = Num (30 - 1 / 2 ^ 48)"
  "spec_wordIndex 66 88 40 = Num 29"
  by code_simp+

subsection \<open>The value of the progress estimate\<close>

lemma spec_progressPercent_value:
  assumes "0 < L" and "0 < n"
  shows "spec_progressPercent (spec_wordIndex c L n) n = Num (progress_value c L n)"
proof -
  have "0 < to_double (of_nat L / of_nat n)"
    using assms by (intro to_double_pos) simp
  then have "to_double (of_nat L / of_nat n) \<noteq> 0"
    by simp
  then show ?thesis
    using assms
    by (simp add: spec_progressPercent_def spec_wordIndex_def progress_value_def num_of_nat_def
        mult.commute)
qed

lemma progress_value_mono:
  assumes "0 < L" and "0 < n" and "c \<le> d"
  shows "progress_value c L n \<le> progress_value d L n"
proof -
  define r where "r = to_double (of_nat L / of_nat n)"
  define q where "q = (\<lambda>i :: nat. to_double (of_nat i / r))"
  have r: "0 < r"
    unfolding r_def using assms by (intro to_double_pos) simp
  have "of_nat c / r \<le> of_nat d / r"
    using r assms(3) by (intro divide_right_mono) simp_all
  moreover have "0 \<le> of_nat c / r"
    using r by simp
  ultimately have "q c \<le> q d"
    unfolding q_def by (intro to_double_mono)
  then have f: "\<lfloor>q c\<rfloor> \<le> \<lfloor>q d\<rfloor>"
    by (rule floor_mono)
  have "0 \<le> q c"
    unfolding q_def using r by (intro to_double_nonneg) simp
  then have f0: "0 \<le> \<lfloor>q c\<rfloor>"
    by simp
  have "(of_int \<lfloor>q c\<rfloor> :: rat) / of_nat n \<le> of_int \<lfloor>q d\<rfloor> / of_nat n"
    using f by (intro divide_right_mono) simp_all
  moreover have "0 \<le> (of_int \<lfloor>q c\<rfloor> :: rat) / of_nat n"
    using f0 by simp
  ultimately have w: "to_double (of_int \<lfloor>q c\<rfloor> / of_nat n) \<le> to_double (of_int \<lfloor>q d\<rfloor> / of_nat n)"
    by (intro to_double_mono)
  have w0: "0 \<le> to_double (of_int \<lfloor>q c\<rfloor> / of_nat n)"
    using f0 by (intro to_double_nonneg) simp
  have "to_double (to_double (of_int \<lfloor>q c\<rfloor> / of_nat n) * 100)
      \<le> to_double (to_double (of_int \<lfloor>q d\<rfloor> / of_nat n) * 100)"
    using w w0 by (intro to_double_mono) simp_all
  then show ?thesis
    by (simp add: progress_value_def q_def r_def)
qed

lemma progress_value_bounds:
  assumes "0 < L" and "L \<le> 2 ^ 53" and "0 < n" and "n \<le> 2 ^ 53" and "c < L"
  shows "0 \<le> progress_value c L n" and "progress_value c L n \<le> 100"
proof -
  define r where "r = to_double (of_nat L / of_nat n)"
  define q where "q = to_double (of_nat c / r)"
  define w where "w = to_double (of_int \<lfloor>q\<rfloor> / of_nat n)"
  have p: "progress_value c L n = to_double (w * 100)"
    by (simp add: progress_value_def w_def q_def r_def)
  have Ln: "0 < (of_nat L :: rat) / of_nat n"
    using assms by simp
  have r: "0 < r"
    unfolding r_def using Ln by (rule to_double_pos)
  have q0: "0 \<le> q"
    unfolding q_def using r by (intro to_double_nonneg) simp
  then have f0: "0 \<le> \<lfloor>q\<rfloor>"
    by simp
  have w0: "0 \<le> w"
    unfolding w_def using f0 by (intro to_double_nonneg) simp
  show "0 \<le> progress_value c L n"
    unfolding p using w0 by (intro to_double_nonneg) simp
  have "Suc c \<le> L"
    using assms(5) by simp
  then have "(of_nat (Suc c) :: rat) \<le> of_nat L"
    by (simp only: of_nat_le_iff)
  then have "(of_nat c :: rat) + 1 \<le> of_nat L"
    by simp
  moreover have "(of_nat L :: rat) \<le> 2 ^ 53"
    using assms(2) by (metis of_nat_le_iff of_nat_numeral of_nat_power)
  ultimately have "(of_nat c :: rat) \<le> of_nat L * (1 - 1 / 2 ^ 53)"
    by (simp add: algebra_simps)
  then have "of_nat c / of_nat n \<le> (of_nat L :: rat) * (1 - 1 / 2 ^ 53) / of_nat n"
    by (intro divide_right_mono) simp_all
  also have "\<dots> = of_nat L / of_nat n * (1 - 1 / 2 ^ 53)"
    by simp
  also have "\<dots> \<le> r"
    unfolding r_def using Ln by (rule to_double_lower)
  finally have "(of_nat c :: rat) \<le> of_nat n * r"
    using assms(3) by (simp add: pos_divide_le_eq mult.commute)
  then have "of_nat c / r \<le> of_nat n"
    using r by (simp add: pos_divide_le_eq)
  moreover have "0 \<le> of_nat c / r"
    using r by simp
  ultimately have "q \<le> to_double (of_nat n)"
    unfolding q_def by (intro to_double_mono)
  then have "q \<le> of_nat n"
    using to_double_of_nat [OF assms(4)] by simp
  then have "\<lfloor>q\<rfloor> \<le> int n"
    by (metis floor_mono floor_of_nat)
  then have "(of_int \<lfloor>q\<rfloor> :: rat) \<le> of_nat n"
    by (metis of_int_le_iff of_int_of_nat_eq)
  then have "of_int \<lfloor>q\<rfloor> / of_nat n \<le> (1 :: rat)"
    using assms(3) by (simp add: pos_divide_le_eq)
  moreover have "0 \<le> (of_int \<lfloor>q\<rfloor> :: rat) / of_nat n"
    using f0 by simp
  ultimately have "w \<le> to_double 1"
    unfolding w_def by (intro to_double_mono)
  moreover have "to_double 1 = 1"
    using to_double_of_nat [of 1] by simp
  ultimately have "w * 100 \<le> 100"
    by simp
  moreover have "0 \<le> w * 100"
    using w0 by simp
  ultimately have "to_double (w * 100) \<le> to_double 100"
    by (intro to_double_mono)
  moreover have "to_double 100 = 100"
    using to_double_of_nat [of 100] by simp
  ultimately show "progress_value c L n \<le> 100"
    unfolding p by simp
qed

subsection \<open>What a fresh \<open>handlePlay\<close> leaves behind\<close>

lemma handlePlay_fresh:
  assumes "trim (text' s) \<noteq> []" and "\<not> isPaused s"
  shows "wordsRef (handlePlay vs s) = split_whitespace (text' s)"
    and "\<exists>u. synthRef (handlePlay vs s) = Some u \<and> utext u = text' s"
    and "isPlaying (handlePlay vs s) = isPlaying s"
    and "isPaused (handlePlay vs s) = isPaused s"
  using assms by (simp_all add: handlePlay_def engine_def Let_def)

lemma js_mul_commute: "js_mul a b = js_mul b a"
  by (cases a; cases b) (simp_all add: mult.commute)

lemma onboundary_word:
  "onboundary t \<lparr>ename = str ''word'', charIndex = i\<rparr> s =
     s\<lparr>progress := spec_progressPercent
                       (spec_wordIndex i (length t) (length (wordsRef s)))
                       (length (wordsRef s)),
       currentPosition := i\<rparr>"
  by (simp add: onboundary_def Let_def spec_wordIndex_def spec_progressPercent_def
      js_mul_commute [of _ "Num 100"])

lemma observe_word_at:
  assumes "synthRef s = Some u"
  shows "observe progress (map word_at cs) s =
           map (\<lambda>i. spec_progressPercent
                       (spec_wordIndex i (length (utext u)) (length (wordsRef s)))
                       (length (wordsRef s))) cs"
  using assms
proof (induction cs arbitrary: s)
  case Nil
  show ?case by simp
next
  case (Cons c cs)
  let ?s' = "step (word_at c) s"
  have s': "?s' = s\<lparr>progress := spec_progressPercent
                              (spec_wordIndex c (length (utext u)) (length (wordsRef s)))
                              (length (wordsRef s)),
                     currentPosition := c\<rparr>"
    using Cons.prems by (simp add: word_at_def onboundary_word)
  have "synthRef ?s' = Some u" and "wordsRef ?s' = wordsRef s"
    by (simp_all add: s' Cons.prems)
  with Cons.IH [of ?s']
  have "observe progress (map word_at cs) ?s' =
           map (\<lambda>i. spec_progressPercent
                       (spec_wordIndex i (length (utext u)) (length (wordsRef s)))
                       (length (wordsRef s))) cs"
    by simp
  moreover have "progress ?s' = spec_progressPercent
                              (spec_wordIndex c (length (utext u)) (length (wordsRef s)))
                              (length (wordsRef s))"
    by (simp add: s')
  ultimately show ?case
    by simp
qed

subsection \<open>The flags between \<open>handlePlay\<close> and the start callback\<close>



subsection \<open>A selection, once made, survives every reload of the voices\<close>

lemma loadVoices_selected:
  "selectedVoice s \<noteq> [] \<Longrightarrow> selectedVoice (loadVoices avail s) = selectedVoice s"
  by (simp add: loadVoices_def Let_def split: option.splits)

lemma run_LoadVoices_selected:
  "selectedVoice s \<noteq> [] \<Longrightarrow> selectedVoice (run (map LoadVoices refreshes) s) = selectedVoice s"
  by (induction refreshes arbitrary: s) (simp_all add: loadVoices_selected)

section \<open>The claims\<close>

text \<open>
  C1. After \<open>handlePlay\<close> has started a new utterance (the text is not blank and the
  component is not paused), a word-boundary event at character index \<open>i\<close> sets the
  progress to \<open>100 * wordIndex / tokenCount\<close> with
  \<open>wordIndex = floor(i / (textLength / tokenCount))\<close>, where the tokens are those of
  \<open>text.split(/\s+/)\<close> on the played text and the operators are those of JavaScript
  numbers; the result is a finite number. For the text "Hello world" the boundary events
  at 0 and 6 give the progress values 0 and 50, and after the end callback the component is
  idle with progress 100.
\<close>

theorem boundary_progress_formula:
  "(trim (text' s) \<noteq> [] \<longrightarrow> \<not> isPaused s \<longrightarrow>
      progress (step (word_at i) (handlePlay vs s)) =
        spec_progressPercent
          (spec_wordIndex i (length (text' s)) (length (split_whitespace (text' s))))
          (length (split_whitespace (text' s)))
      \<and> progress (step (word_at i) (handlePlay vs s)) =
        Num (progress_value i (length (text' s)) (length (split_whitespace (text' s)))))
   \<and> observe progress [word_at 0, word_at 6]
       (run [SetText (str ''Hello world''), Play vs, EngineStart] initial) = [Num 0, Num 50]
   \<and> playbackState
       (run [SetText (str ''Hello world''), Play vs, EngineStart, word_at 0, word_at 6, EngineEnd]
          initial) = Idle
   \<and> progress
       (run [SetText (str ''Hello world''), Play vs, EngineStart, word_at 0, word_at 6, EngineEnd]
          initial) = Num 100"
proof (intro conjI impI)
  assume a: "trim (text' s) \<noteq> []" "\<not> isPaused s"
  from handlePlay_fresh(2) [OF a] obtain u
    where u: "synthRef (handlePlay vs s) = Some u" "utext u = text' s"
    by blast
  show p: "progress (step (word_at i) (handlePlay vs s)) =
        spec_progressPercent
          (spec_wordIndex i (length (text' s)) (length (split_whitespace (text' s))))
          (length (split_whitespace (text' s)))"
    using u handlePlay_fresh(1) [OF a, of vs]
    by (simp add: word_at_def onboundary_word)
  show "progress (step (word_at i) (handlePlay vs s)) =
        Num (progress_value i (length (text' s)) (length (split_whitespace (text' s))))"
    unfolding p using a(1)
    by (intro spec_progressPercent_value trim_not_Nil_length length_split_whitespace_pos)
next
  show "observe progress [word_at 0, word_at 6]
       (run [SetText (str ''Hello world''), Play vs, EngineStart] initial) = [Num 0, Num 50]"
    by code_simp
next
  show "playbackState
       (run [SetText (str ''Hello world''), Play vs, EngineStart, word_at 0, word_at 6, EngineEnd]
          initial) = Idle"
    by code_simp
next
  show "progress
       (run [SetText (str ''Hello world''), Play vs, EngineStart, word_at 0, word_at 6, EngineEnd]
          initial) = Num 100"
    by code_simp
qed

theorem boundary_progress_formula_witness:
  "trim (text' (step (SetText (str ''Hello world'')) initial)) \<noteq> [] \<and>
   \<not> isPaused (step (SetText (str ''Hello world'')) initial) \<and>
   progress (step (word_at 6) (handlePlay [] (step (SetText (str ''Hello world'')) initial))) = Num 50"
proof -
  let ?s = "step (SetText (str ''Hello world'')) initial"
  have h: "trim (text' ?s) \<noteq> []" "\<not> isPaused ?s"
    by code_simp+
  have v: "spec_progressPercent
             (spec_wordIndex 6 (length (text' ?s)) (length (split_whitespace (text' ?s))))
             (length (split_whitespace (text' ?s))) = Num 50"
    by code_simp
  show ?thesis
    using h boundary_progress_formula [of ?s 6 "[]"] unfolding v by blast
qed

text \<open>
  C2. Within one utterance (a new utterance started by \<open>handlePlay\<close>, then the start
  callback), for every sequence of word-boundary events whose character indices do not
  decrease and are smaller than the length of the played text, the progress values after
  the events do not decrease, and each lies between 0 and 100. The text is a string of
  JavaScript, which has fewer than \<open>2 ^ 53\<close> code units.
\<close>

theorem boundary_progress_monotone_bounded:
  assumes "trim (text' s) \<noteq> []" and "\<not> isPaused s" and "length (text' s) < 2 ^ 53"
    and "sorted cs" and "\<forall>c\<in>set cs. c < length (text' s)"
  shows "sorted_wrt js_le (observe progress (map word_at cs) (step EngineStart (handlePlay vs s)))
     \<and> (\<forall>p\<in>set (observe progress (map word_at cs) (step EngineStart (handlePlay vs s))).
           js_le (Num 0) p \<and> js_le p (Num 100))"
proof -
  define s1 where "s1 = step EngineStart (handlePlay vs s)"
  define L where "L = length (text' s)"
  define n where "n = length (split_whitespace (text' s))"
  from handlePlay_fresh(2) [OF assms(1,2)] obtain u
    where u: "synthRef (handlePlay vs s) = Some u" "utext u = text' s"
    by blast
  have L: "0 < L" "L \<le> 2 ^ 53"
    unfolding L_def using trim_not_Nil_length [OF assms(1)] assms(3) by simp_all
  have n: "0 < n" "n \<le> 2 ^ 53"
    unfolding n_def
    using length_split_whitespace_pos [of "text' s"] length_split_whitespace_le [of "text' s"]
      assms(3)
    by simp_all
  have s1: "synthRef s1 = Some u" "wordsRef s1 = split_whitespace (text' s)"
    using u handlePlay_fresh(1) [OF assms(1,2), of vs] by (simp_all add: s1_def onstart_def)
  have "observe progress (map word_at cs) s1 =
          map (\<lambda>i. spec_progressPercent
                      (spec_wordIndex i (length (utext u)) (length (wordsRef s1)))
                      (length (wordsRef s1))) cs"
    using s1(1) by (rule observe_word_at)
  then have obs: "observe progress (map word_at cs) s1 = map (\<lambda>i. Num (progress_value i L n)) cs"
    using spec_progressPercent_value [OF L(1) n(1)] by (simp add: L_def n_def s1 u(2))
  have mono: "\<And>c d. c \<le> d \<Longrightarrow> js_le (Num (progress_value c L n)) (Num (progress_value d L n))"
    using progress_value_mono [OF L(1) n(1)] by simp
  have "sorted_wrt (\<lambda>c d. js_le (Num (progress_value c L n)) (Num (progress_value d L n))) cs"
    using assms(4) mono by (auto intro: sorted_wrt_mono_rel [of cs "(\<le>)"])
  then have srt: "sorted_wrt js_le (map (\<lambda>i. Num (progress_value i L n)) cs)"
    by (simp add: sorted_wrt_map)
  have bnd: "\<forall>p\<in>set (map (\<lambda>i. Num (progress_value i L n)) cs).
               js_le (Num 0) p \<and> js_le p (Num 100)"
  proof
    fix p
    assume "p \<in> set (map (\<lambda>i. Num (progress_value i L n)) cs)"
    then obtain c where c: "c \<in> set cs" "p = Num (progress_value c L n)"
      by auto
    then have "c < L"
      using assms(5) by (simp add: L_def)
    from progress_value_bounds [OF L n this] c(2)
    show "js_le (Num 0) p \<and> js_le p (Num 100)"
      by simp
  qed
  show ?thesis
    using srt bnd unfolding s1_def [symmetric] obs by simp
qed

theorem boundary_progress_monotone_bounded_witness:
  "trim (text' (step (SetText (str ''Hello world'')) initial)) \<noteq> [] \<and>
   \<not> isPaused (step (SetText (str ''Hello world'')) initial) \<and>
   length (text' (step (SetText (str ''Hello world'')) initial)) < 2 ^ 53 \<and>
   sorted [0, 6, 6 :: nat] \<and>
   6 < length (text' (step (SetText (str ''Hello world'')) initial)) \<and>
   sorted_wrt js_le
     (observe progress (map word_at [0, 6, 6])
        (step EngineStart (handlePlay [] (step (SetText (str ''Hello world'')) initial))))"
proof -
  let ?s = "step (SetText (str ''Hello world'')) initial"
  have h: "trim (text' ?s) \<noteq> []" "\<not> isPaused ?s" "length (text' ?s) < 2 ^ 53"
    "sorted [0, 6, 6 :: nat]" "\<forall>c\<in>set [0, 6, 6 :: nat]. c < length (text' ?s)"
    by (code_simp, code_simp, simp add: str_def, simp, simp add: str_def)
  have l: "6 < length (text' ?s)"
    by (simp add: str_def)
  from boundary_progress_monotone_bounded [OF h, of "[]"] h(1-4) l show ?thesis
    by blast
qed

text \<open>
  C3. When the trimmed text is empty, \<open>handlePlay\<close> changes nothing in the state of the
  component but the list of toasts, to which it adds exactly one: the playback state, the
  progress, the speed and the selected voice stay as they are, and no command is sent to
  the engine.
\<close>

theorem play_blank_text_only_notifies:
  assumes "trim (text' s) = []"
  shows "handlePlay vs s =
           s\<lparr>toasts := toasts s @
                [\<lparr>title = str ''No text to read'',
                  description = str ''Please enter some text first.'',
                  variant = Some (str ''destructive'')\<rparr>]\<rparr>
     \<and> playbackState (handlePlay vs s) = playbackState s
     \<and> progress (handlePlay vs s) = progress s
     \<and> speed (handlePlay vs s) = speed s
     \<and> selectedVoice (handlePlay vs s) = selectedVoice s
     \<and> engineCalls (handlePlay vs s) = engineCalls s
     \<and> length (toasts (handlePlay vs s)) = length (toasts s) + 1"
  using assms by (simp add: handlePlay_def toast_def playbackState_def)

theorem play_blank_text_only_notifies_witness:
  "trim (text' (step (SetText (str '' '')) initial)) = [] \<and>
   playbackState (handlePlay [] (step (SetText (str '' '')) initial)) = Idle \<and>
   engineCalls (handlePlay [] (step (SetText (str '' '')) initial)) = [] \<and>
   length (toasts (handlePlay [] (step (SetText (str '' '')) initial))) = 1"
proof -
  let ?s = "step (SetText (str '' '')) initial"
  have h: "trim (text' ?s) = []"
    by code_simp
  have i: "playbackState ?s = Idle" "engineCalls ?s = []" "toasts ?s = []"
    by (simp_all add: initial_def playbackState_def)
  from play_blank_text_only_notifies [OF h, of "[]"]
  have "playbackState (handlePlay [] ?s) = playbackState ?s"
    and "engineCalls (handlePlay [] ?s) = engineCalls ?s"
    and "length (toasts (handlePlay [] ?s)) = length (toasts ?s) + 1"
    by blast+
  with h i show ?thesis
    by simp
qed



text \<open>
  C5. The end callback sets the progress to 100 whatever it was, makes the component idle
  and shows exactly one toast, the completion notice; it sends nothing to the engine.
\<close>

theorem onend_completes:
  "progress (onend s) = Num 100
   \<and> playbackState (onend s) = Idle
   \<and> toasts (onend s) =
       toasts s @ [\<lparr>title = str ''Playback completed'',
                    description = str ''Finished reading the text.'',
                    variant = None\<rparr>]
   \<and> engineCalls (onend s) = engineCalls s"
  by (simp add: onend_def toast_def playbackState_def)

text \<open>
  C6. \<open>handleStop\<close>, from any state, sends \<open>cancel\<close> to the engine, sets the progress
  to 0 and makes the component idle. A second \<open>handleStop\<close> sends \<open>cancel\<close> once more
  and changes nothing else.
\<close>

theorem stop_resets:
  "engineCalls (handleStop s) = engineCalls s @ [Cancel]
   \<and> progress (handleStop s) = Num 0
   \<and> playbackState (handleStop s) = Idle
   \<and> handleStop (handleStop s) = engine Cancel (handleStop s)"
  by (simp add: handleStop_def engine_def playbackState_def)

text \<open>
  C7. \<open>handlePause\<close> takes the playing component to the paused state and sends \<open>pause\<close>
  to the engine. In any state that is not playing it changes nothing at all; this is so
  right after \<open>handlePlay\<close> has started an utterance from the idle state, before the start
  callback.
\<close>

theorem pause_only_when_playing:
  "(playbackState s = Playing \<longrightarrow>
      playbackState (handlePause s) = Paused \<and>
      engineCalls (handlePause s) = engineCalls s @ [PauseCall])
   \<and> (playbackState s \<noteq> Playing \<longrightarrow> handlePause s = s)
   \<and> (trim (text' s) \<noteq> [] \<longrightarrow> playbackState s = Idle \<longrightarrow>
        handlePause (handlePlay vs s) = handlePlay vs s)"
  by (auto simp: handlePause_def handlePlay_def engine_def playbackState_def Let_def
           split: if_splits)

theorem pause_only_when_playing_witness:
  "playbackState (run [SetText (str ''Hello world''), Play [], EngineStart] initial) = Playing \<and>
   playbackState (handlePause (run [SetText (str ''Hello world''), Play [], EngineStart] initial))
     = Paused \<and>
   playbackState (run [SetText (str ''Hello world'')] initial) = Idle \<and>
   trim (text' (run [SetText (str ''Hello world'')] initial)) \<noteq> [] \<and>
   handlePause (handlePlay [] (run [SetText (str ''Hello world'')] initial)) =
     handlePlay [] (run [SetText (str ''Hello world'')] initial)"
proof -
  let ?p = "run [SetText (str ''Hello world''), Play [], EngineStart] initial"
  let ?i = "run [SetText (str ''Hello world'')] initial"
  have h: "playbackState ?p = Playing" "playbackState ?i = Idle" "trim (text' ?i) \<noteq> []"
    by code_simp+
  from pause_only_when_playing [of ?p] h(1) have a: "playbackState (handlePause ?p) = Paused"
    by blast
  from pause_only_when_playing [of ?i "[]"] h(2,3)
  have b: "handlePause (handlePlay [] ?i) = handlePlay [] ?i"
    by blast
  from h a b show ?thesis
    by blast
qed



text \<open>
  C9. \<open>loadVoices\<close> stores the engine's voices in the shape \<open>Voice\<close>. When no voice is
  selected, it selects the first voice whose language tag starts with "en" and which is
  local, if there is one. When a voice is selected, it leaves the selection as it is, and
  so does any number of further reloads; so after two reloads the selection is still the
  default that the first one chose.
\<close>

theorem default_voice_selection:
  "voices (loadVoices avail s) =
     map (\<lambda>v. \<lparr>name = name v, lang = lang v, voiceURI = voiceURI v\<rparr>) avail
   \<and> (selectedVoice s = [] \<longrightarrow>
        selectedVoice (loadVoices avail s) =
          (case find (\<lambda>v. startsWith (lang v) (str ''en'') \<and> localService v) avail of
             None \<Rightarrow> []
           | Some v \<Rightarrow> voiceURI v))
   \<and> (selectedVoice s \<noteq> [] \<longrightarrow>
        selectedVoice (loadVoices avail s) = selectedVoice s \<and>
        selectedVoice (run (map LoadVoices refreshes) s) = selectedVoice s)
   \<and> (selectedVoice s = [] \<longrightarrow>
        find (\<lambda>v. startsWith (lang v) (str ''en'') \<and> localService v) avail = Some d \<longrightarrow>
        voiceURI d \<noteq> [] \<longrightarrow>
        selectedVoice (loadVoices avail s) = voiceURI d \<and>
        selectedVoice (loadVoices avail' (loadVoices avail s)) = voiceURI d)"
proof (intro conjI impI)
  show "voices (loadVoices avail s) =
     map (\<lambda>v. \<lparr>name = name v, lang = lang v, voiceURI = voiceURI v\<rparr>) avail"
    by (simp add: loadVoices_def Let_def split: option.splits)
  show "selectedVoice (loadVoices avail s) =
          (case find (\<lambda>v. startsWith (lang v) (str ''en'') \<and> localService v) avail of
             None \<Rightarrow> []
           | Some v \<Rightarrow> voiceURI v)" if "selectedVoice s = []"
    using that by (simp add: loadVoices_def Let_def split: option.splits)
  show "selectedVoice (loadVoices avail s) = selectedVoice s" if "selectedVoice s \<noteq> []"
    using that by (rule loadVoices_selected)
  show "selectedVoice (run (map LoadVoices refreshes) s) = selectedVoice s"
    if "selectedVoice s \<noteq> []"
    using that by (rule run_LoadVoices_selected)
  assume a: "selectedVoice s = []"
    "find (\<lambda>v. startsWith (lang v) (str ''en'') \<and> localService v) avail = Some d"
    "voiceURI d \<noteq> []"
  then show first: "selectedVoice (loadVoices avail s) = voiceURI d"
    by (simp add: loadVoices_def Let_def)
  with a(3) show "selectedVoice (loadVoices avail' (loadVoices avail s)) = voiceURI d"
    by (simp add: loadVoices_selected)
qed

theorem default_voice_selection_witness:
  "selectedVoice initial = [] \<and>
   selectedVoice
     (loadVoices
        [\<lparr>name = str ''Anna'', lang = str ''de-DE'', voiceURI = str ''anna'',
          localService = True\<rparr>,
         \<lparr>name = str ''Cloud'', lang = str ''en-US'', voiceURI = str ''cloud'',
          localService = False\<rparr>,
         \<lparr>name = str ''Alex'', lang = str ''en-US'', voiceURI = str ''alex'',
          localService = True\<rparr>]
        initial) = str ''alex'' \<and>
   selectedVoice
     (loadVoices
        [\<lparr>name = str ''Daniel'', lang = str ''en-GB'', voiceURI = str ''daniel'',
          localService = True\<rparr>]
        (loadVoices
           [\<lparr>name = str ''Anna'', lang = str ''de-DE'', voiceURI = str ''anna'',
             localService = True\<rparr>,
            \<lparr>name = str ''Cloud'', lang = str ''en-US'', voiceURI = str ''cloud'',
             localService = False\<rparr>,
            \<lparr>name = str ''Alex'', lang = str ''en-US'', voiceURI = str ''alex'',
             localService = True\<rparr>]
           initial)) = str ''alex''"
proof -
  let ?alex = "\<lparr>name = str ''Alex'', lang = str ''en-US'', voiceURI = str ''alex'',
                localService = True\<rparr>"
  let ?a = "[\<lparr>name = str ''Anna'', lang = str ''de-DE'', voiceURI = str ''anna'',
              localService = True\<rparr>,
             \<lparr>name = str ''Cloud'', lang = str ''en-US'', voiceURI = str ''cloud'',
              localService = False\<rparr>,
             ?alex]"
  let ?b = "[\<lparr>name = str ''Daniel'', lang = str ''en-GB'', voiceURI = str ''daniel'',
              localService = True\<rparr>]"
  have h: "selectedVoice initial = []"
    "find (\<lambda>v. startsWith (lang v) (str ''en'') \<and> localService v) ?a = Some ?alex"
    "voiceURI ?alex \<noteq> []"
    by (simp_all add: initial_def startsWith_def str_def)
  have one: "selectedVoice (loadVoices ?a initial) = str ''alex''"
    using default_voice_selection [of ?a initial _ ?alex ?b] h by simp
  then have "selectedVoice (loadVoices ?a initial) \<noteq> []"
    by (simp add: str_def)
  then have "selectedVoice (loadVoices ?b (loadVoices ?a initial)) = str ''alex''"
    using default_voice_selection [of ?b "loadVoices ?a initial"] one by simp
  with h(1) one show ?thesis
    by simp
qed

text \<open>
  C10. When \<open>handlePlay\<close> is called while the component is paused and the trimmed text is
  empty, the test for the empty text comes first: exactly one toast is added, nothing is
  sent to the engine (no \<open>resume\<close>), and the flags stay as they are, so a paused
  component stays paused.
\<close>

theorem play_blank_text_while_paused:
  assumes "isPaused s" and "trim (text' s) = []"
  shows "isPaused (handlePlay vs s)
     \<and> isPlaying (handlePlay vs s) = isPlaying s
     \<and> playbackState (handlePlay vs s) = playbackState s
     \<and> engineCalls (handlePlay vs s) = engineCalls s
     \<and> toasts (handlePlay vs s) =
         toasts s @ [\<lparr>title = str ''No text to read'',
                      description = str ''Please enter some text first.'',
                      variant = Some (str ''destructive'')\<rparr>]"
  using assms by (simp add: handlePlay_def toast_def playbackState_def)

theorem play_blank_text_while_paused_witness:
  "isPaused (run [SetText (str ''Hello world''), Play [], EngineStart, Pause, SetText (str '' '')] initial)
   \<and> trim (text' (run [SetText (str ''Hello world''), Play [], EngineStart, Pause, SetText (str '' '')]
               initial)) = []
   \<and> playbackState
       (run [SetText (str ''Hello world''), Play [], EngineStart, Pause, SetText (str '' '')] initial)
       = Paused
   \<and> playbackState
       (handlePlay []
          (run [SetText (str ''Hello world''), Play [], EngineStart, Pause, SetText (str '' '')] initial))
       = Paused"
proof -
  let ?s = "run [SetText (str ''Hello world''), Play [], EngineStart, Pause, SetText (str '' '')] initial"
  have h: "isPaused ?s" "trim (text' ?s) = []"
    by code_simp+
  have p: "playbackState ?s = Paused"
    by code_simp
  from play_blank_text_while_paused [OF h, of "[]"]
  have "playbackState (handlePlay [] ?s) = playbackState ?s"
    by blast
  with h p show ?thesis
    by (simp only: simp_thms)
qed

end
